theory Spec2Isabelle
  imports Complex_Main
begin

section \<open>TeaLearning layers: the data model\<close>

text \<open>
  The notebook defines two Keras layers, \<open>Tea\<close> (the constrained spiking layer) and
  \<open>AdditivePooling\<close> (the class pooling layer), and the helper
  \<open>tea_weight_initializer\<close>. Their tensors hold \<open>float32\<close> entries.
\<close>

datatype error =
    AssertionError
  | TypeError
  | ZeroDivisionError
  | OverflowError
  | ValueError
  | IndexError
  | InvalidArgumentError

subsection \<open>Binary floating point\<close>

text \<open>
  A \<open>float32\<close> is a finite value, an infinity or \<open>NaN\<close>. A finite value is written
  as the real number it denotes; the arithmetic below rounds every result to the
  nearest value with a 24 bit significand, a tie to the even neighbour, with gradual
  underflow below \<open>2^-126\<close> and overflow to an infinity from \<open>2^128\<close> on. The two
  zeros are not distinguished: they compare equal and no operation of the layers tells
  them apart.
\<close>

datatype f32 = Finite real | PosInf | NegInf | NaN

instantiation f32 :: "{zero, one, uminus}"
begin

definition zero_f32 :: f32 where
  "zero_f32 = Finite 0"

definition one_f32 :: f32 where
  "one_f32 = Finite 1"

definition uminus_f32 :: "f32 \<Rightarrow> f32" where
  "uminus_f32 v =
     (case v of Finite r \<Rightarrow> Finite (- r) | PosInf \<Rightarrow> NegInf | NegInf \<Rightarrow> PosInf | NaN \<Rightarrow> NaN)"

instance ..

end

text \<open>
  \<open>round_even\<close> is the nearest integer, a tie going to the even one. \<open>round_to p emin\<close>
  rounds a real to \<open>p\<close> significant bits: the exponent \<open>e\<close> of \<open>x\<close> is the integer with
  \<open>2^e \<le> |x| < 2^(e+1)\<close>, not below \<open>emin\<close>, and the result is the nearest multiple
  of \<open>2^(e-p+1)\<close>.
\<close>

definition round_even :: "real \<Rightarrow> int" where
  "round_even v =
     (let f = \<lfloor>v\<rfloor>; d = v - of_int f
      in if d < 1 / 2 then f
         else if 1 / 2 < d then f + 1
         else if even f then f else f + 1)"

definition round_to :: "nat \<Rightarrow> int \<Rightarrow> real \<Rightarrow> real" where
  "round_to p emin x =
     (if x = 0 then 0
      else
        let e = max \<lfloor>log 2 \<bar>x\<bar>\<rfloor> emin;
            q = 2 powi (e - int p + 1)
        in of_int (round_even (x / q)) * q)"

definition f32_of_real :: "real \<Rightarrow> f32" where
  "f32_of_real x =
     (let r = round_to 24 (- 126) x
      in if 2 ^ 128 \<le> r then PosInf
         else if r \<le> - (2 ^ 128) then NegInf
         else Finite r)"

fun fadd :: "f32 \<Rightarrow> f32 \<Rightarrow> f32" where
  "fadd (Finite a) (Finite b) = f32_of_real (a + b)"
| "fadd NaN _ = NaN"
| "fadd _ NaN = NaN"
| "fadd PosInf NegInf = NaN"
| "fadd NegInf PosInf = NaN"
| "fadd PosInf _ = PosInf"
| "fadd _ PosInf = PosInf"
| "fadd NegInf _ = NegInf"
| "fadd _ NegInf = NegInf"

fun fmul :: "f32 \<Rightarrow> f32 \<Rightarrow> f32" where
  "fmul (Finite a) (Finite b) = f32_of_real (a * b)"
| "fmul NaN _ = NaN"
| "fmul _ NaN = NaN"
| "fmul PosInf (Finite b) = (if b = 0 then NaN else if 0 < b then PosInf else NegInf)"
| "fmul NegInf (Finite b) = (if b = 0 then NaN else if 0 < b then NegInf else PosInf)"
| "fmul (Finite a) PosInf = (if a = 0 then NaN else if 0 < a then PosInf else NegInf)"
| "fmul (Finite a) NegInf = (if a = 0 then NaN else if 0 < a then NegInf else PosInf)"
| "fmul PosInf PosInf = PosInf"
| "fmul NegInf NegInf = PosInf"
| "fmul PosInf NegInf = NegInf"
| "fmul NegInf PosInf = NegInf"

fun fdiv :: "f32 \<Rightarrow> f32 \<Rightarrow> f32" where
  "fdiv (Finite a) (Finite b) =
     (if b = 0 then (if a = 0 then NaN else if 0 < a then PosInf else NegInf)
      else f32_of_real (a / b))"
| "fdiv NaN _ = NaN"
| "fdiv _ NaN = NaN"
| "fdiv (Finite a) PosInf = Finite 0"
| "fdiv (Finite a) NegInf = Finite 0"
| "fdiv PosInf (Finite b) = (if 0 \<le> b then PosInf else NegInf)"
| "fdiv NegInf (Finite b) = (if 0 \<le> b then NegInf else PosInf)"
| "fdiv _ _ = NaN"

text \<open>
  The exponential, rounded to \<open>float32\<close>.
\<close>

fun fexp :: "f32 \<Rightarrow> f32" where
  "fexp (Finite a) = f32_of_real (exp a)"
| "fexp PosInf = PosInf"
| "fexp NegInf = Finite 0"
| "fexp NaN = NaN"

text \<open>
  Comparisons are false as soon as one side is \<open>NaN\<close>.
\<close>

fun fle :: "f32 \<Rightarrow> f32 \<Rightarrow> bool" where
  "fle NaN _ = False"
| "fle _ NaN = False"
| "fle (Finite a) (Finite b) = (a \<le> b)"
| "fle NegInf _ = True"
| "fle _ PosInf = True"
| "fle _ _ = False"

definition fless :: "f32 \<Rightarrow> f32 \<Rightarrow> bool" where
  "fless a b \<longleftrightarrow> fle a b \<and> \<not> fle b a"

text \<open>
  The minimum and the maximum as the TensorFlow kernels compute them: the second
  argument is taken when it compares strictly below (above) the first, so a \<open>NaN\<close> in
  the first argument is returned.
\<close>

definition fmin :: "f32 \<Rightarrow> f32 \<Rightarrow> f32" where
  "fmin a b = (if fless b a then b else a)"

definition fmax :: "f32 \<Rightarrow> f32 \<Rightarrow> f32" where
  "fmax a b = (if fless a b then b else a)"

text \<open>
  A sum of \<open>float32\<close> values, accumulated from zero in the order of the indices, each
  addition rounded.
\<close>

definition f32_sum :: "f32 list \<Rightarrow> f32" where
  "f32_sum xs = foldl fadd 0 xs"

subsection \<open>Tensors\<close>

text \<open>
  A tensor is its shape together with its entries in row-major order, which is what
  \<open>tf.reshape\<close> preserves.
\<close>

record tensor =
  shape :: "nat list"
  data :: "f32 list"

definition wf_tensor :: "tensor \<Rightarrow> bool" where
  "wf_tensor t \<longleftrightarrow> length (data t) = prod_list (shape t)"

definition map_tensor :: "(f32 \<Rightarrow> f32) \<Rightarrow> tensor \<Rightarrow> tensor" where
  "map_tensor f t = \<lparr>shape = shape t, data = map f (data t)\<rparr>"

subsection \<open>The TensorFlow operations the layers call\<close>

text \<open>
  \<open>tf.round\<close> rounds a finite entry to the nearest integer, a tie to the even
  neighbour, and returns an infinity or \<open>NaN\<close> as it is.
\<close>

definition tf_round :: "f32 \<Rightarrow> f32" where
  "tf_round v = (case v of Finite r \<Rightarrow> Finite (of_int (round_even r)) | _ \<Rightarrow> v)"

text \<open>
  \<open>K.clip(x, min_value, max_value)\<close>: a maximum below the minimum is raised to the
  minimum, then \<open>tf.clip_by_value\<close> takes the minimum with the upper bound and the
  maximum with the lower bound.
\<close>

definition K_clip :: "f32 \<Rightarrow> f32 \<Rightarrow> f32 \<Rightarrow> f32" where
  "K_clip v min_value max_value =
     (let max_value = (if fless max_value min_value then min_value else max_value)
      in fmax (fmin v max_value) min_value)"

text \<open>
  \<open>K.dot(x, y)\<close> with \<open>y\<close> of rank 2: the trailing dimension of \<open>x\<close> is contracted
  with the leading dimension of \<open>y\<close>; for \<open>x\<close> of rank above 2 Keras flattens the
  leading dimensions, multiplies and restores them, which in row-major order is the
  same indexing. The products are added in the order of the contracted index.
\<close>

definition K_dot :: "tensor \<Rightarrow> tensor \<Rightarrow> error + tensor" where
  "K_dot x y =
     (case shape y of
        [n, m] \<Rightarrow>
          if length (shape x) < 2 \<or> last (shape x) \<noteq> n then Inl InvalidArgumentError
          else
            let rows = prod_list (butlast (shape x))
            in Inr \<lparr>shape = butlast (shape x) @ [m],
                    data = map (\<lambda>p. f32_sum (map (\<lambda>i. fmul (data x ! ((p div m) * n + i))
                                                            (data y ! (i * m + p mod m)))
                                                 [0..<n]))
                               [0..<rows * m]\<rparr>
      | _ \<Rightarrow> Inl InvalidArgumentError)"

text \<open>
  The product \<open>connections * self.static_weights\<close> is elementwise on two tensors of
  one shape, which is what \<open>build\<close> creates; TensorFlow's broadcasting of unequal
  shapes is not modelled and reported as an error.
\<close>

definition tensor_mul :: "tensor \<Rightarrow> tensor \<Rightarrow> error + tensor" where
  "tensor_mul a b =
     (if shape a = shape b
      then Inr \<lparr>shape = shape a, data = map (\<lambda>(u, v). fmul u v) (zip (data a) (data b))\<rparr>
      else Inl InvalidArgumentError)"

text \<open>
  \<open>K.bias_add(x, bias, data_format='channels_last')\<close> with a bias of rank 1 adds
  \<open>bias[j]\<close> to every entry whose trailing index is \<open>j\<close>.
\<close>

definition K_bias_add :: "tensor \<Rightarrow> tensor \<Rightarrow> error + tensor" where
  "K_bias_add x bias =
     (case shape bias of
        [m] \<Rightarrow>
          if shape x = [] \<or> last (shape x) \<noteq> m then Inl ValueError
          else Inr \<lparr>shape = shape x,
                    data = map (\<lambda>p. fadd (data x ! p) (data bias ! (p mod m)))
                               [0..<length (data x)]\<rparr>
      | _ \<Rightarrow> Inl ValueError)"

text \<open>
  \<open>K.sigmoid\<close> is the logistic function \<open>1 / (1 + exp (- v))\<close>, evaluated with
  \<open>float32\<close> operations.
\<close>

definition K_sigmoid :: "f32 \<Rightarrow> f32" where
  "K_sigmoid v = fdiv 1 (fadd 1 (fexp (- v)))"

text \<open>
  \<open>tf.cast(tf.greater_equal(v, 0.0), tf.float32)\<close>.
\<close>

definition spike :: "f32 \<Rightarrow> f32" where
  "spike v = (if fle 0 v then 1 else 0)"



text \<open>
  Python's \<open>int(a / b)\<close> under \<open>from __future__ import division\<close>: the true quotient of
  two integers is the nearest \<open>float\<close> (53 significant bits), an \<open>OverflowError\<close> when
  that is out of range, and \<open>int\<close> truncates it towards zero.
\<close>

definition int_truediv :: "int \<Rightarrow> int \<Rightarrow> error + int" where
  "int_truediv a b =
     (if b = 0 then Inl ZeroDivisionError
      else
        let q = round_to 53 (- 1022) (of_int a / of_int b)
        in if 2 ^ 1024 \<le> \<bar>q\<bar> then Inl OverflowError
           else Inr (if 0 \<le> q then \<lfloor>q\<rfloor> else \<lceil>q\<rceil>))"

subsection \<open>The structural weights\<close>

text \<open>
  \<open>tea_weight_initializer(shape)\<close> starts from \<open>np.zeros\<close> and overwrites the rows one
  by one: the outer loop runs over \<open>enumerate(ret_array)\<close>, the inner one over
  \<open>range(len(axon))\<close>, writing \<open>ret_array[axon_num][i]\<close>.
\<close>

definition np_zeros :: "nat \<Rightarrow> nat \<Rightarrow> f32 list list" where
  "np_zeros num_axons num_neurons = replicate num_axons (replicate num_neurons 0)"

definition fill_axon :: "f32 \<Rightarrow> nat \<Rightarrow> f32 list list \<Rightarrow> f32 list list" where
  "fill_axon v axon_num ret_array =
     fold (\<lambda>i arr. arr[axon_num := (arr ! axon_num)[i := v]])
          [0..<length (ret_array ! axon_num)] ret_array"

definition weight_rows :: "nat \<Rightarrow> nat \<Rightarrow> f32 list list" where
  "weight_rows num_axons num_neurons =
     fold (\<lambda>axon_num arr.
             if axon_num mod 2 = 0 then fill_axon 1 axon_num arr
             else fill_axon (- 1) axon_num arr)
          [0..<num_axons] (np_zeros num_axons num_neurons)"

definition tea_weight_initializer :: "nat \<times> nat \<Rightarrow> tensor" where
  "tea_weight_initializer shp =
     (let num_axons = fst shp; num_neurons = snd shp
      in \<lparr>shape = [num_axons, num_neurons],
          data = concat (weight_rows num_axons num_neurons)\<rparr>)"

subsection \<open>The layer \<open>Tea\<close>\<close>

text \<open>
  A Keras shape is a tuple whose entries are integers or \<open>None\<close>. The count argument
  of a constructor is a Python integer; the constructor stores it as it is.
\<close>

type_synonym keras_shape = "int option list"

definition truthy :: "int option \<Rightarrow> bool" where
  "truthy d = (case d of None \<Rightarrow> False | Some k \<Rightarrow> k \<noteq> 0)"

record Tea =
  units :: int
  uses_learning_phase :: bool

record Tea_built = Tea +
  static_weights :: tensor
  connections :: tensor
  biases :: tensor

datatype learning_phase = Train | Test

definition Tea_init :: "int \<Rightarrow> error + Tea" where
  "Tea_init u = Inr \<lparr>units = u, uses_learning_phase = True\<rparr>"

text \<open>
  \<open>build\<close> creates the three variables. The truncated normal initial value of the
  connections is random; the model takes the sampled entries as the argument \<open>sample\<close>.
\<close>

definition Tea_build :: "Tea \<Rightarrow> keras_shape \<Rightarrow> (nat \<Rightarrow> f32) \<Rightarrow> error + Tea_built" where
  "Tea_build self input_shape sample =
     (if \<not> length input_shape \<ge> 2 then Inl AssertionError
      else case last input_shape of
        None \<Rightarrow> Inl TypeError
      | Some d \<Rightarrow>
          if d < 0 \<or> units self < 0 then Inl ValueError
          else
            let n = nat d; u = nat (units self)
            in Inr \<lparr>units = units self,
                    uses_learning_phase = uses_learning_phase self,
                    static_weights = tea_weight_initializer (n, u),
                    connections = \<lparr>shape = [n, u], data = map sample [0..<n * u]\<rparr>,
                    biases = \<lparr>shape = [u], data = replicate u 0\<rparr>\<rparr>)"

text \<open>
  The steps of \<open>call\<close>, in the order of the source: the constrained connections, the
  weighted connections, the potential (dot product plus rounded biases), the
  activation. \<open>Tea_call\<close> returns the layer as it is after the call together with the
  output.
\<close>

definition effective_connections :: "Tea_built \<Rightarrow> tensor" where
  "effective_connections self =
     (let connections = connections self;
          connections = map_tensor tf_round connections;
          connections = map_tensor (\<lambda>v. K_clip v 0 1) connections
      in connections)"

definition weighted_connections :: "Tea_built \<Rightarrow> error + tensor" where
  "weighted_connections self = tensor_mul (effective_connections self) (static_weights self)"

definition potential :: "Tea_built \<Rightarrow> tensor \<Rightarrow> error + tensor" where
  "potential self x =
     (let x = map_tensor tf_round x
      in case weighted_connections self of
           Inl e \<Rightarrow> Inl e
         | Inr weighted \<Rightarrow>
             (case K_dot x weighted of
                Inl e \<Rightarrow> Inl e
              | Inr output \<Rightarrow>
                  let biases = map_tensor tf_round (biases self)
                  in K_bias_add output biases))"

definition Tea_call :: "Tea_built \<Rightarrow> learning_phase \<Rightarrow> tensor \<Rightarrow> Tea_built \<times> (error + tensor)" where
  "Tea_call self phase x =
     (case potential self x of
        Inl e \<Rightarrow> (self, Inl e)
      | Inr output \<Rightarrow>
          (self, Inr (case phase of
                        Train \<Rightarrow> map_tensor K_sigmoid output
                      | Test \<Rightarrow> map_tensor spike output)))"

definition Tea_compute_output_shape :: "Tea \<Rightarrow> keras_shape \<Rightarrow> error + keras_shape" where
  "Tea_compute_output_shape self input_shape =
     (if \<not> (input_shape \<noteq> [] \<and> length input_shape \<ge> 2) then Inl AssertionError
      else if \<not> truthy (last input_shape) then Inl AssertionError
      else
        let output_shape = input_shape;
            output_shape = output_shape[length output_shape - 1 := Some (units self)]
        in Inr output_shape)"

subsection \<open>The layer \<open>AdditivePooling\<close>\<close>

record AdditivePooling =
  num_classes :: int
  num_inputs :: "int option"

definition AdditivePooling_init :: "int \<Rightarrow> error + AdditivePooling" where
  "AdditivePooling_init n = Inr \<lparr>num_classes = n, num_inputs = None\<rparr>"

definition AdditivePooling_build :: "AdditivePooling \<Rightarrow> keras_shape \<Rightarrow> error + AdditivePooling" where
  "AdditivePooling_build self input_shape =
     (if \<not> length input_shape \<ge> 2 then Inl AssertionError
      else case last input_shape of
        None \<Rightarrow> Inl TypeError
      | Some d \<Rightarrow>
          if num_classes self = 0 then Inl ZeroDivisionError
          else if \<not> d mod num_classes self = 0 then Inl AssertionError
          else Inr (self\<lparr>num_inputs := Some d\<rparr>))"

definition neurons_per_class :: "AdditivePooling \<Rightarrow> error + int" where
  "neurons_per_class self =
     (case num_inputs self of
        None \<Rightarrow> Inl TypeError
      | Some n \<Rightarrow>
          int_truediv n (num_classes self))"


definition AdditivePooling_compute_output_shape ::
  "AdditivePooling \<Rightarrow> keras_shape \<Rightarrow> error + keras_shape" where
  "AdditivePooling_compute_output_shape self input_shape =
     (if input_shape = [] then Inl IndexError
      else
        let output_shape = input_shape;
            output_shape = output_shape[length output_shape - 1 := Some (num_classes self)];
            output_shape = (if length output_shape \<ge> 3
                            then take 1 output_shape @ drop 2 output_shape
                            else output_shape)
        in Inr output_shape)"

subsection \<open>Sample layers and tensors\<close>

text \<open>
  A built layer with three axons and two neurons; the connection entries include the
  ties \<open>1/2\<close>, \<open>3/2\<close> and \<open>5/2\<close>.
\<close>

definition demo_layer :: Tea_built where
  "demo_layer =
     \<lparr>units = 2, uses_learning_phase = True,
      static_weights = tea_weight_initializer (3, 2),
      connections = \<lparr>shape = [3, 2],
                     data = [Finite (13 / 8), Finite (1 / 4), Finite (- 7 / 8),
                             Finite (1 / 2), Finite (3 / 2), Finite (5 / 2)]\<rparr>,
      biases = \<lparr>shape = [2], data = [Finite (- 5 / 2), Finite (1 / 4)]\<rparr>\<rparr>"

text \<open>
  One input row for that layer; it rounds to the spikes \<open>1, 0, 1\<close>.
\<close>

definition demo_input :: tensor where
  "demo_input = \<lparr>shape = [1, 3], data = [Finite (7 / 8), Finite (1 / 4), Finite (11 / 8)]\<rparr>"

definition zero_input :: tensor where
  "zero_input = \<lparr>shape = [1, 3], data = [0, 0, 0]\<rparr>"

text \<open>
  The same layer with biases that round to zero, with a connection that is \<open>NaN\<close>,
  with a leak too large for an exact sum, and with a leak of \<open>32\<close>.
\<close>

definition demo_layer_no_leak :: Tea_built where
  "demo_layer_no_leak = demo_layer\<lparr>biases := \<lparr>shape = [2], data = [Finite (1 / 2), Finite (- 1 / 4)]\<rparr>\<rparr>"

definition nan_layer :: Tea_built where
  "nan_layer =
     demo_layer_no_leak
       \<lparr>connections := \<lparr>shape = [3, 2],
                        data = [NaN, Finite (1 / 4), Finite (- 7 / 8),
                                Finite (1 / 2), Finite (3 / 2), Finite (5 / 2)]\<rparr>\<rparr>"

definition big_leak_layer :: Tea_built where
  "big_leak_layer = demo_layer\<lparr>biases := \<lparr>shape = [2], data = [Finite 33554436, 0]\<rparr>\<rparr>"





section \<open>Rounding\<close>

lemma round_even_of_int [simp]: "round_even (of_int k) = k"
  by (simp add: round_even_def)



lemma powr_powi: "(2::real) powr (of_int k) = 2 powi k"
  by (simp add: powr_real_of_int')

lemma exponent_bounds:
  assumes "x \<noteq> 0"
  shows "2 powi \<lfloor>log 2 \<bar>x\<bar>\<rfloor> \<le> \<bar>x\<bar>" and "\<bar>x\<bar> < 2 powi (\<lfloor>log 2 \<bar>x\<bar>\<rfloor> + 1)"
proof -
  have pos: "0 < \<bar>x\<bar>" using assms by simp
  have b: "(2::real) powr of_int \<lfloor>log 2 \<bar>x\<bar>\<rfloor> \<le> \<bar>x\<bar> \<and> \<bar>x\<bar> < 2 powr (of_int \<lfloor>log 2 \<bar>x\<bar>\<rfloor> + 1)"
    using floor_log_eq_powr_iff[OF pos, of 2 "\<lfloor>log 2 \<bar>x\<bar>\<rfloor>"] by simp
  have c: "of_int \<lfloor>log 2 \<bar>x\<bar>\<rfloor> + 1 = (of_int (\<lfloor>log 2 \<bar>x\<bar>\<rfloor> + 1) :: real)" by simp
  from b show "2 powi \<lfloor>log 2 \<bar>x\<bar>\<rfloor> \<le> \<bar>x\<bar>"
    by (simp only: powr_powi)
  from b show "\<bar>x\<bar> < 2 powi (\<lfloor>log 2 \<bar>x\<bar>\<rfloor> + 1)"
    unfolding c by (simp only: powr_powi)
qed

lemma exponent_unique:
  assumes "2 powi e \<le> \<bar>x\<bar>" and "\<bar>x\<bar> < 2 powi (e + 1)"
  shows "\<lfloor>log 2 \<bar>x\<bar>\<rfloor> = e"
proof -
  have "(0::real) < 2 powi e" by simp
  with assms(1) have pos: "0 < \<bar>x\<bar>" by linarith
  have c: "of_int e + 1 = (of_int (e + 1) :: real)" by simp
  have "(2::real) powr of_int e \<le> \<bar>x\<bar> \<and> \<bar>x\<bar> < 2 powr (of_int e + 1)"
    unfolding c powr_powi using assms by simp
  then show ?thesis
    using floor_log_eq_powr_iff[OF pos, of 2 e] by simp
qed

lemma round_to_eval:
  assumes "2 powi e \<le> \<bar>x\<bar>" and "\<bar>x\<bar> < 2 powi (e + 1)" and "emin \<le> e"
  shows "round_to p emin x
           = of_int (round_even (x / 2 powi (e - int p + 1))) * 2 powi (e - int p + 1)"
proof -
  have "(0::real) < 2 powi e" by simp
  with assms(1) have "0 < \<bar>x\<bar>" by linarith
  then have "x \<noteq> 0" by auto
  moreover have "max \<lfloor>log 2 \<bar>x\<bar>\<rfloor> emin = e"
    using exponent_unique[OF assms(1,2)] assms(3) by simp
  ultimately show ?thesis by (simp add: round_to_def Let_def)
qed



lemma powi_le_iff: "(2::real) powi a \<le> 2 powi b \<longleftrightarrow> a \<le> b"
proof
  assume le: "(2::real) powi a \<le> 2 powi b"
  show "a \<le> b"
  proof (rule ccontr)
    assume "\<not> a \<le> b"
    then have "b < a" by simp
    then have "(2::real) powi b < 2 powi a"
      by (rule power_int_strict_increasing) simp
    with le show False by simp
  qed
next
  assume "a \<le> b"
  then show "(2::real) powi a \<le> 2 powi b"
    by (rule power_int_increasing) simp
qed

lemma powi_nonneg_int:
  assumes "0 \<le> a"
  shows "(2::real) powi a = of_int (2 ^ nat a)"
  using assms by (simp add: power_int_def)

lemma round_to_scaled:
  assumes "0 < q" and "x / q = of_int j"
  shows "of_int (round_even (x / q)) * q = x"
  using assms by (simp add: field_simps)

lemma round_to_int:
  assumes k: "\<bar>k\<bar> \<le> 2 ^ p" and emin: "emin \<le> 0" and p: "0 < p"
  shows "round_to p emin (of_int k) = of_int k"
proof (cases "k = 0")
  case True
  then show ?thesis by (simp add: round_to_def)
next
  case False
  let ?x = "of_int k :: real"
  define e where "e = \<lfloor>log 2 \<bar>?x\<bar>\<rfloor>"
  have x0: "?x \<noteq> 0" using False by simp
  have lo: "2 powi e \<le> \<bar>?x\<bar>" and hi: "\<bar>?x\<bar> < 2 powi (e + 1)"
    unfolding e_def using exponent_bounds[OF x0] by simp_all
  have one: "(1::real) \<le> \<bar>?x\<bar>"
  proof -
    have "1 \<le> \<bar>k\<bar>" using False by simp
    then have "(1::real) \<le> of_int \<bar>k\<bar>" by (simp only: of_int_1_le_iff)
    then show ?thesis by simp
  qed
  have e0: "0 \<le> e"
  proof (rule ccontr)
    assume "\<not> 0 \<le> e"
    then have "e + 1 \<le> 0" by linarith
    then have "(2::real) powi (e + 1) \<le> 2 powi 0" by (simp only: powi_le_iff)
    with hi one show False by simp
  qed
  have xp: "\<bar>?x\<bar> \<le> 2 powi int p"
  proof -
    have "(of_int \<bar>k\<bar> :: real) \<le> of_int (2 ^ p)" using k by (simp only: of_int_le_iff)
    then show ?thesis by simp
  qed
  have ep: "e \<le> int p"
  proof -
    from lo xp have "(2::real) powi e \<le> 2 powi int p" by linarith
    then show ?thesis by (simp only: powi_le_iff)
  qed
  let ?q = "(2::real) powi (e - int p + 1)"
  have q: "0 < ?q" by simp
  have "\<exists>j::int. ?x / ?q = of_int j"
  proof (cases "e < int p")
    case True
    then have "0 \<le> int p - 1 - e" by linarith
    then have "(2::real) powi (int p - 1 - e) = of_int (2 ^ nat (int p - 1 - e))"
      by (rule powi_nonneg_int)
    moreover have "?x / ?q = ?x * 2 powi (int p - 1 - e)"
    proof -
      have "e - int p + 1 = - (int p - 1 - e)" by linarith
      then show ?thesis by (simp only: power_int_minus divide_inverse inverse_inverse_eq)
    qed
    ultimately have "?x / ?q = of_int (k * 2 ^ nat (int p - 1 - e))" by simp
    then show ?thesis by blast
  next
    case False
    with ep have e: "e = int p" by linarith
    have "\<bar>?x\<bar> = 2 powi int p" using lo xp unfolding e by linarith
    then have "\<bar>?x\<bar> = 2 ^ p" by simp
    moreover have "(2::real) ^ p = 2 * 2 ^ (p - 1)"
      using p by (cases p) simp_all
    ultimately have ax: "\<bar>?x\<bar> = 2 * of_int (2 ^ (p - 1))" by simp
    have qq: "?q = 2" by (simp add: e)
    show ?thesis
    proof (cases "0 \<le> k")
      case True
      with ax have "?x / ?q = of_int (2 ^ (p - 1))" by (simp add: qq)
      then show ?thesis by blast
    next
      case False
      with ax have "?x = - (2 * of_int (2 ^ (p - 1)))" by simp
      then have "?x / ?q = of_int (- (2 ^ (p - 1)))" by (simp add: qq)
      then show ?thesis by blast
    qed
  qed
  then obtain j :: int where j: "?x / ?q = of_int j" by blast
  have "max e emin = e" using e0 emin by linarith
  then have "round_to p emin ?x = of_int (round_even (?x / ?q)) * ?q"
    using x0 by (simp add: round_to_def Let_def e_def)
  then show ?thesis
    using round_to_scaled[OF q j] by simp
qed







section \<open>Properties of the structural weights\<close>

lemma fold_update_row:
  "n \<le> length row \<Longrightarrow> k < length xs \<Longrightarrow>
   fold (\<lambda>i arr. arr[k := (arr ! k)[i := v]]) [0..<n] (xs[k := row])
     = xs[k := replicate n v @ drop n row]"
proof (induction n)
  case 0
  then show ?case by simp
next
  case (Suc n)
  then have n: "n < length row" by simp
  have "(replicate n v @ drop n row)[n := v] = replicate (Suc n) v @ drop (Suc n) row"
    using n by (simp add: list_update_append replicate_append_same upd_conv_take_nth_drop)
  with Suc n show ?case
    by (simp add: replicate_append_same)
qed

lemma fill_axon_row:
  assumes "k < length arr"
  shows "fill_axon v k arr = arr[k := replicate (length (arr ! k)) v]"
proof -
  have "fold (\<lambda>i a. a[k := (a ! k)[i := v]]) [0..<length (arr ! k)] (arr[k := arr ! k])
          = arr[k := replicate (length (arr ! k)) v @ drop (length (arr ! k)) (arr ! k)]"
    using assms by (intro fold_update_row) simp_all
  then show ?thesis
    unfolding fill_axon_def by simp
qed

lemma weight_rows_fold:
  "n \<le> a \<Longrightarrow>
   fold (\<lambda>axon_num arr.
           if axon_num mod 2 = 0 then fill_axon 1 axon_num arr
           else fill_axon (- 1) axon_num arr)
        [0..<n] (np_zeros a b)
     = map (\<lambda>i. replicate b (if even i then 1 else - 1)) [0..<n] @ replicate (a - n) (replicate b 0)"
proof (induction n)
  case 0
  then show ?case by (simp add: np_zeros_def)
next
  case (Suc n)
  let ?done = "map (\<lambda>i. replicate b (if even i then 1 else - 1 ::f32)) [0..<n]"
  let ?arr = "?done @ replicate (a - n) (replicate b (0::f32))"
  from Suc have n: "n < a" by simp
  then have len: "n < length ?arr" by simp
  have nth: "?arr ! n = replicate b 0"
    using n by (simp add: nth_append)
  have rest: "replicate (a - n) (replicate b (0::f32))
                = replicate b 0 # replicate (a - Suc n) (replicate b 0)"
    using n by (metis Suc_diff_Suc replicate_Suc)
  have upd: "?arr[n := r] = ?done @ r # replicate (a - Suc n) (replicate b 0)" for r
    by (simp add: rest list_update_append)
  have step: "fill_axon v n ?arr = ?done @ replicate b v # replicate (a - Suc n) (replicate b 0)" for v
    unfolding fill_axon_row[OF len] nth by (simp add: upd)
  have "fold (\<lambda>axon_num arr.
           if axon_num mod 2 = 0 then fill_axon 1 axon_num arr
           else fill_axon (- 1) axon_num arr) [0..<Suc n] (np_zeros a b)
        = (if n mod 2 = 0 then fill_axon 1 n ?arr else fill_axon (- 1) n ?arr)"
    using Suc n by simp
  also have "\<dots> = ?done @ replicate b (if even n then 1 else - 1) # replicate (a - Suc n) (replicate b 0)"
  proof (cases "even n")
    case True
    then have "n mod 2 = 0" by (simp add: even_iff_mod_2_eq_zero)
    with True show ?thesis by (simp add: step)
  next
    case False
    then have "n mod 2 \<noteq> 0" by (simp add: even_iff_mod_2_eq_zero)
    with False show ?thesis by (simp add: step)
  qed
  finally show ?case by simp
qed

lemma weight_rows_closed:
  "weight_rows a b = map (\<lambda>i. replicate b (if even i then 1 else - 1)) [0..<a]"
  unfolding weight_rows_def by (simp add: weight_rows_fold)

lemma flat_index_less:
  fixes i j a b :: nat
  assumes "i < a" "j < b"
  shows "i * b + j < a * b"
proof -
  have "i * b + j < i * b + b" using assms by simp
  also have "\<dots> = Suc i * b" by simp
  also have "\<dots> \<le> a * b" using assms by (intro mult_le_mono1) simp
  finally show ?thesis .
qed

lemma length_concat_rows:
  "length (concat (map (\<lambda>i. replicate b (f i)) [0..<a])) = a * b"
  by (induction a) simp_all

lemma concat_rows_nth:
  "i < a \<Longrightarrow> j < b \<Longrightarrow> concat (map (\<lambda>i. replicate b (f i)) [0..<a]) ! (i * b + j) = f i"
proof (induction a)
  case 0
  then show ?case by simp
next
  case (Suc a)
  show ?case
  proof (cases "i < a")
    case True
    then have "i * b + j < a * b" using Suc.prems by (simp add: flat_index_less)
    then show ?thesis
      using Suc True by (simp add: nth_append length_concat_rows)
  next
    case False
    with Suc.prems have "i = a" by simp
    then show ?thesis
      using Suc.prems by (simp add: nth_append length_concat_rows)
  qed
qed

text \<open>
  C4. For every shape \<open>(a, b)\<close> with \<open>a > 0\<close> and \<open>b > 0\<close>, the structural weight
  matrix is the tensor of shape \<open>[a, b]\<close> whose row \<open>i\<close> holds \<open>+1\<close> throughout when
  \<open>i\<close> is even and \<open>-1\<close> throughout when \<open>i\<close> is odd; the right-hand side of the
  first equation mentions nothing but the shape.
\<close>

theorem tea_weight_initializer_rows:
  assumes "0 < a" and "0 < b"
  shows "tea_weight_initializer (a, b)
           = \<lparr>shape = [a, b],
              data = concat (map (\<lambda>i. replicate b (if even i then 1 else - 1)) [0..<a])\<rparr>
         \<and> (\<forall>i<a. \<forall>j<b. data (tea_weight_initializer (a, b)) ! (i * b + j)
                           = (if even i then 1 else - 1))"
  by (simp add: tea_weight_initializer_def weight_rows_closed concat_rows_nth)

theorem tea_weight_initializer_rows_witness:
  "tea_weight_initializer (3, 2) = \<lparr>shape = [3, 2], data = [1, 1, - 1, - 1, 1, 1]\<rparr>
   \<and> data (tea_weight_initializer (3, 2)) ! (1 * 2 + 1) = - 1
   \<and> data (tea_weight_initializer (3, 2)) ! (2 * 2 + 0) = 1"
proof -
  have a: "(0::nat) < 3" and b: "(0::nat) < 2" by simp_all
  have up: "[0..<3] = [0, 1, 2]" by (simp add: upt_rec)
  from tea_weight_initializer_rows[OF a b] show ?thesis
    by (simp add: up numeral_2_eq_2)
qed

section \<open>Exact float32 operations\<close>

lemma f32_of_real_int:
  assumes "\<bar>k\<bar> \<le> 2 ^ 24"
  shows "f32_of_real (of_int k) = Finite (of_int k)"
proof -
  have r: "round_to 24 (- 126) (of_int k) = of_int k"
    using assms by (intro round_to_int) simp_all
  have "(of_int \<bar>k\<bar> :: real) \<le> of_int (2 ^ 24)"
    using assms by (simp only: of_int_le_iff)
  then have "\<bar>of_int k :: real\<bar> \<le> 2 ^ 24" by simp
  then have "\<not> (2 ^ 128 \<le> (of_int k :: real))" "\<not> ((of_int k :: real) \<le> - (2 ^ 128))"
    by simp_all
  then show ?thesis by (simp add: f32_of_real_def r Let_def)
qed

lemma f32_of_real_Ints:
  assumes "x \<in> \<int>" and "\<bar>x\<bar> \<le> 16777216"
  shows "f32_of_real x = Finite x"
proof -
  from assms(1) obtain k :: int where k: "x = of_int k" by (auto elim: Ints_cases)
  have "(of_int \<bar>k\<bar> :: real) \<le> of_int 16777216" using assms(2) k by simp
  then have "\<bar>k\<bar> \<le> 16777216" by (simp only: of_int_le_iff)
  then show ?thesis unfolding k by (intro f32_of_real_int) simp
qed

lemma fadd_exact:
  assumes "a + b \<in> \<int>" and "\<bar>a + b\<bar> \<le> 16777216"
  shows "fadd (Finite a) (Finite b) = Finite (a + b)"
  using assms by (simp add: f32_of_real_Ints)

lemma fmul_exact:
  assumes "a * b \<in> \<int>" and "\<bar>a * b\<bar> \<le> 16777216"
  shows "fmul (Finite a) (Finite b) = Finite (a * b)"
  using assms by (simp add: f32_of_real_Ints)

lemmas f32_consts = zero_f32_def one_f32_def uminus_f32_def

section \<open>The constrained connections\<close>

lemma tf_round_cases:
  assumes "v \<noteq> NaN"
  obtains k :: int where "tf_round v = Finite (of_int k)"
  | "tf_round v = PosInf" | "tf_round v = NegInf"
  using assms by (cases v) (simp_all add: tf_round_def)

lemma clip_unit:
  "K_clip (Finite (of_int k)) 0 1 = (if 1 \<le> k then 1 else 0)"
  "K_clip PosInf 0 1 = 1"
  "K_clip NegInf 0 1 = 0"
  "K_clip NaN 0 1 = NaN"
  by (auto simp: K_clip_def fmin_def fmax_def fless_def f32_consts Let_def)

lemma clip_round_binary:
  assumes "v \<noteq> NaN"
  shows "K_clip (tf_round v) 0 1 \<in> {0, 1}
   \<and> (K_clip (tf_round v) 0 1 = 1 \<longleftrightarrow> fle 1 (tf_round v))
   \<and> (K_clip (tf_round v) 0 1 = 0 \<longleftrightarrow> fle (tf_round v) 0)"
proof (rule tf_round_cases[OF assms])
  fix k :: int
  assume k: "tf_round v = Finite (of_int k)"
  show ?thesis
    unfolding k clip_unit by (cases "1 \<le> k") (auto simp: f32_consts)
next
  assume "tf_round v = PosInf"
  then show ?thesis by (simp add: clip_unit) (simp add: f32_consts)
next
  assume "tf_round v = NegInf"
  then show ?thesis by (simp add: clip_unit) (simp add: f32_consts)
qed

lemma effective_connections_data:
  "data (effective_connections self)
     = map (\<lambda>v. K_clip (tf_round v) 0 1) (data (connections self))"
  by (simp add: effective_connections_def map_tensor_def Let_def)

lemma effective_connections_shape:
  "shape (effective_connections self) = shape (connections self)"
  by (simp add: effective_connections_def map_tensor_def Let_def)




section \<open>Construction and shape inference\<close>

text \<open>
  C7, as the code has it. Neither constructor validates its count argument:
  \<open>Tea.__init__\<close> and \<open>AdditivePooling.__init__\<close> succeed for every integer, positive
  or not, and record it unchanged.
\<close>

theorem init_records_argument:
  "Tea_init u = Inr \<lparr>units = u, uses_learning_phase = True\<rparr>
   \<and> AdditivePooling_init n = Inr \<lparr>num_classes = n, num_inputs = None\<rparr>"
  by (simp add: Tea_init_def AdditivePooling_init_def)

text \<open>
  The claim that construction fails for a count that is not a positive integer is
  false at \<open>0\<close> and at \<open>-3\<close>.
\<close>

theorem init_nonpositive_counterexample:
  "\<not> isl (Tea_init 0) \<and> \<not> isl (Tea_init (- 3))
   \<and> \<not> isl (AdditivePooling_init 0) \<and> \<not> isl (AdditivePooling_init (- 3))"
  by (simp add: Tea_init_def AdditivePooling_init_def)

lemma round_to_eval_53: "round_to 53 (- 1022) 9007199254740993 = 9007199254740992"
  using round_to_eval[of 53 9007199254740993 "- 1022" 53]
  by (simp add: round_even_def)

lemma int_truediv_exact:
  assumes b: "b \<noteq> 0" and m: "a mod b = 0" and a: "\<bar>a\<bar> \<le> 2 ^ 53"
  shows "int_truediv a b = Inr (a div b)"
proof -
  define j where "j = a div b"
  have aj: "a = j * b" using m by (simp add: j_def mod_eq_0_iff_dvd)
  have "\<bar>j\<bar> * 1 \<le> \<bar>j\<bar> * \<bar>b\<bar>"
    using b by (intro mult_left_mono) simp_all
  then have "\<bar>j\<bar> \<le> \<bar>a\<bar>" by (simp add: aj abs_mult)
  with a have j: "\<bar>j\<bar> \<le> 2 ^ 53" by linarith
  have q: "(of_int a :: real) / of_int b = of_int j"
    using b by (simp add: aj)
  have r: "round_to 53 (- 1022) (of_int j) = of_int j"
    using j by (intro round_to_int) simp_all
  have "(of_int \<bar>j\<bar> :: real) \<le> of_int (2 ^ 53)" using j by (simp only: of_int_le_iff)
  then have "\<bar>of_int j :: real\<bar> \<le> 2 ^ 53" by simp
  moreover have "(2::real) ^ 53 < 2 ^ 1024" by simp
  ultimately have small: "\<not> (2 ^ 1024 \<le> \<bar>of_int j :: real\<bar>)" by linarith
  show ?thesis
    using b small by (simp add: int_truediv_def Let_def q r j_def[symmetric])
qed

text \<open>
  C8, as the code has it. \<open>AdditivePooling.build\<close> fails whenever the trailing dimension is
  not divisible by \<open>num_classes\<close> (a zero \<open>num_classes\<close> divides nothing: the remainder
  raises), and also when the trailing dimension is undefined. It succeeds whenever the
  shape has at least two dimensions and the trailing dimension is divisible, and
  records the trailing dimension. The number of neurons per class that \<open>call\<close> derives
  from it, \<open>int(num_inputs / num_classes)\<close>, is the exact quotient when the trailing
  dimension is at most \<open>2^53\<close> in absolute value.
\<close>

theorem AdditivePooling_build_divisible:
  "(last input_shape = Some d \<and> \<not> (num_classes self \<noteq> 0 \<and> d mod num_classes self = 0)
      \<longrightarrow> isl (AdditivePooling_build self input_shape))
   \<and> (last input_shape = None \<longrightarrow> isl (AdditivePooling_build self input_shape))
   \<and> (length input_shape \<ge> 2 \<and> last input_shape = Some d
        \<and> num_classes self \<noteq> 0 \<and> d mod num_classes self = 0
      \<longrightarrow> AdditivePooling_build self input_shape = Inr (self\<lparr>num_inputs := Some d\<rparr>)
          \<and> (d div num_classes self) * num_classes self = d
          \<and> (\<bar>d\<bar> \<le> 2 ^ 53 \<longrightarrow>
               neurons_per_class (self\<lparr>num_inputs := Some d\<rparr>) = Inr (d div num_classes self)))"
  by (auto simp: AdditivePooling_build_def neurons_per_class_def int_truediv_exact)

theorem AdditivePooling_build_divisible_witness:
  "isl (AdditivePooling_build \<lparr>num_classes = 10, num_inputs = None\<rparr> [None, Some 255])
   \<and> AdditivePooling_build \<lparr>num_classes = 10, num_inputs = None\<rparr> [None, Some 250]
       = Inr \<lparr>num_classes = 10, num_inputs = Some 250\<rparr>
   \<and> neurons_per_class \<lparr>num_classes = 10, num_inputs = Some 250\<rparr> = Inr 25"
  using AdditivePooling_build_divisible
          [of "[None, Some 255]" 255 "\<lparr>num_classes = 10, num_inputs = None\<rparr>"]
        AdditivePooling_build_divisible
          [of "[None, Some 250]" 250 "\<lparr>num_classes = 10, num_inputs = None\<rparr>"]
  by simp

text \<open>
  The claim that the derived number of neurons per class is always the quotient is
  false for the trailing dimension \<open>2^53 + 1\<close> and one class: \<open>build\<close> accepts the shape,
  and the true division returns \<open>2^53\<close>.
\<close>

theorem neurons_per_class_counterexample:
  "AdditivePooling_build \<lparr>num_classes = 1, num_inputs = None\<rparr> [Some 1, Some 9007199254740993]
     = Inr \<lparr>num_classes = 1, num_inputs = Some 9007199254740993\<rparr>
   \<and> neurons_per_class \<lparr>num_classes = 1, num_inputs = Some 9007199254740993\<rparr>
       = Inr 9007199254740992
   \<and> 9007199254740993 div 1 \<noteq> (9007199254740992 :: int)"
  by (simp add: AdditivePooling_build_def neurons_per_class_def int_truediv_def round_to_eval_53)

text \<open>
  C9. \<open>call\<close> reads the stored parameters and writes none of them: the layer after
  the call is the layer before it, so the connections, the biases and the static
  weights are unchanged.
\<close>

theorem Tea_call_frame:
  "fst (Tea_call self phase x) = self
   \<and> connections (fst (Tea_call self phase x)) = connections self
   \<and> biases (fst (Tea_call self phase x)) = biases self
   \<and> static_weights (fst (Tea_call self phase x)) = static_weights self"
  by (simp add: Tea_call_def split: sum.splits)


lemma update_last:
  "xs \<noteq> [] \<Longrightarrow> xs[length xs - Suc 0 := v] = butlast xs @ [v]"
  by (induction xs rule: rev_induct) simp_all

lemma Tea_compute_output_shape_result:
  assumes "Tea_compute_output_shape tea input_shape = Inr s"
  shows "s = butlast input_shape @ [Some (units tea)]"
    and "units tea \<noteq> 0 \<Longrightarrow> Tea_compute_output_shape tea s = Inr s"
proof -
  from assms have ne: "input_shape \<noteq> []" and len: "length input_shape \<ge> 2"
    by (auto simp: Tea_compute_output_shape_def split: if_splits)
  from assms show s: "s = butlast input_shape @ [Some (units tea)]"
    using ne by (auto simp: Tea_compute_output_shape_def Let_def update_last split: if_splits)
  assume u: "units tea \<noteq> 0"
  have "length s \<ge> 2" using len by (simp add: s)
  moreover have "last s = Some (units tea)" by (simp add: s)
  moreover have "s[length s - 1 := Some (units tea)] = s"
    unfolding s by (simp add: list_update_append)
  ultimately show "Tea_compute_output_shape tea s = Inr s"
    using u by (auto simp: Tea_compute_output_shape_def Let_def truthy_def)
qed

lemma pool_shape_low:
  assumes "input_shape \<noteq> []" and "length input_shape \<le> 2"
  shows "AdditivePooling_compute_output_shape pool input_shape
           = Inr (butlast input_shape @ [Some (num_classes pool)])"
  using assms by (simp add: AdditivePooling_compute_output_shape_def Let_def update_last)

lemma pool_shape_ticks:
  assumes "length input_shape \<ge> 3"
  shows "AdditivePooling_compute_output_shape pool input_shape
           = Inr (take 1 input_shape @ butlast (drop 2 input_shape) @ [Some (num_classes pool)])"
proof -
  from assms have ne: "input_shape \<noteq> []" by auto
  have t: "take (Suc 0) (butlast input_shape) = take (Suc 0) input_shape"
    using assms by (cases input_shape) auto
  show ?thesis
    using assms ne
    by (simp add: AdditivePooling_compute_output_shape_def Let_def update_last t drop_butlast)
qed

lemma pool_shape_idem:
  assumes "AdditivePooling_compute_output_shape pool input_shape = Inr s"
    and "length input_shape \<le> 3"
  shows "AdditivePooling_compute_output_shape pool s = Inr s"
proof -
  from assms(1) have ne: "input_shape \<noteq> []"
    by (auto simp: AdditivePooling_compute_output_shape_def split: if_splits)
  let ?v = "Some (num_classes pool)"
  have s: "s \<noteq> [] \<and> length s \<le> 2 \<and> last s = ?v"
  proof (cases "length input_shape \<ge> 3")
    case True
    with assms(2) have "length input_shape = 3" by simp
    with assms(1) pool_shape_ticks[OF True, of pool] show ?thesis by auto
  next
    case False
    then have "length input_shape \<le> 2" by simp
    with assms(1) pool_shape_low[OF ne this, of pool] show ?thesis by auto
  qed
  then have "butlast s @ [?v] = s"
    by (metis append_butlast_last_id)
  with s pool_shape_low[of s pool] show ?thesis by simp
qed

text \<open>
  C6, as the code has it. \<open>Tea.compute_output_shape\<close> replaces only the trailing
  dimension, by \<open>units\<close>, and when \<open>units\<close> is not zero it maps its own result to itself.
  \<open>AdditivePooling.compute_output_shape\<close> replaces the trailing dimension by
  \<open>num_classes\<close> and, for a shape of rank 3 or more, also deletes the dimension at
  index 1; on a shape of rank at most 3 it maps its own result to itself.
\<close>

theorem compute_output_shape_trailing:
  "(Tea_compute_output_shape tea input_shape = Inr s \<longrightarrow>
      s = butlast input_shape @ [Some (units tea)]
      \<and> (units tea \<noteq> 0 \<longrightarrow> Tea_compute_output_shape tea s = Inr s))
   \<and> (input_shape \<noteq> [] \<and> length input_shape \<le> 2 \<longrightarrow>
        AdditivePooling_compute_output_shape pool input_shape
          = Inr (butlast input_shape @ [Some (num_classes pool)]))
   \<and> (length input_shape \<ge> 3 \<longrightarrow>
        AdditivePooling_compute_output_shape pool input_shape
          = Inr (take 1 input_shape @ butlast (drop 2 input_shape) @ [Some (num_classes pool)]))
   \<and> (AdditivePooling_compute_output_shape pool input_shape = Inr s' \<and> length input_shape \<le> 3 \<longrightarrow>
        AdditivePooling_compute_output_shape pool s' = Inr s')"
proof (intro conjI impI)
  assume "Tea_compute_output_shape tea input_shape = Inr s"
  then show "s = butlast input_shape @ [Some (units tea)]"
    and "units tea \<noteq> 0 \<Longrightarrow> Tea_compute_output_shape tea s = Inr s"
    by (rule Tea_compute_output_shape_result)+
next
  assume "input_shape \<noteq> [] \<and> length input_shape \<le> 2"
  then show "AdditivePooling_compute_output_shape pool input_shape
               = Inr (butlast input_shape @ [Some (num_classes pool)])"
    by (simp add: pool_shape_low)
next
  assume "length input_shape \<ge> 3"
  then show "AdditivePooling_compute_output_shape pool input_shape
               = Inr (take 1 input_shape @ butlast (drop 2 input_shape) @ [Some (num_classes pool)])"
    by (rule pool_shape_ticks)
next
  assume "AdditivePooling_compute_output_shape pool input_shape = Inr s' \<and> length input_shape \<le> 3"
  then show "AdditivePooling_compute_output_shape pool s' = Inr s'"
    using pool_shape_idem by blast
qed

theorem compute_output_shape_trailing_witness:
  "Tea_compute_output_shape \<lparr>units = 64, uses_learning_phase = True\<rparr> [None, Some 4, Some 256]
     = Inr [None, Some 4, Some 64]
   \<and> Tea_compute_output_shape \<lparr>units = 64, uses_learning_phase = True\<rparr> [None, Some 4, Some 64]
     = Inr [None, Some 4, Some 64]
   \<and> AdditivePooling_compute_output_shape \<lparr>num_classes = 10, num_inputs = Some 250\<rparr>
        [None, Some 250] = Inr [None, Some 10]
   \<and> AdditivePooling_compute_output_shape \<lparr>num_classes = 5, num_inputs = Some 10\<rparr>
        [Some 2, Some 4, Some 10] = Inr [Some 2, Some 5]
   \<and> AdditivePooling_compute_output_shape \<lparr>num_classes = 5, num_inputs = Some 10\<rparr>
        [Some 2, Some 5] = Inr [Some 2, Some 5]"
proof -
  let ?tea = "\<lparr>units = 64, uses_learning_phase = True\<rparr>"
  let ?p10 = "\<lparr>num_classes = 10, num_inputs = Some 250\<rparr>"
  let ?p5 = "\<lparr>num_classes = 5, num_inputs = Some 10\<rparr>"
  have t: "Tea_compute_output_shape ?tea [None, Some 4, Some 256] = Inr [None, Some 4, Some 64]"
    by (simp add: Tea_compute_output_shape_def truthy_def)
  have t': "Tea_compute_output_shape ?tea [None, Some 4, Some 64] = Inr [None, Some 4, Some 64]"
    using t compute_output_shape_trailing
                [of ?tea "[None, Some 4, Some 256]" "[None, Some 4, Some 64]" ?p10 "[]"]
    by simp
  have p2: "AdditivePooling_compute_output_shape ?p10 [None, Some 250] = Inr [None, Some 10]"
    using compute_output_shape_trailing[of ?tea "[None, Some 250]" "[]" ?p10 "[]"]
    by simp
  have p3: "AdditivePooling_compute_output_shape ?p5 [Some 2, Some 4, Some 10] = Inr [Some 2, Some 5]"
    using compute_output_shape_trailing[of ?tea "[Some 2, Some 4, Some 10]" "[]" ?p5 "[]"]
    by simp
  have p3': "AdditivePooling_compute_output_shape ?p5 [Some 2, Some 5] = Inr [Some 2, Some 5]"
    using p3 compute_output_shape_trailing
                 [of ?tea "[Some 2, Some 4, Some 10]" "[]" ?p5 "[Some 2, Some 5]"]
    by simp
  show ?thesis
    using t t' p2 p3 p3' by simp
qed

text \<open>
  The claim that the output shape always differs from the input shape in the
  trailing dimension only, and that the operation is idempotent on every accepted
  shape, is false: the pooling layer drops the tick dimension of \<open>(2, 4, 10)\<close>, it is
  not idempotent on the rank 4 shape \<open>(2, 4, 3, 10)\<close>, and \<open>Tea\<close> with \<open>units = 0\<close>
  rejects its own result.
\<close>

theorem compute_output_shape_counterexample:
  "AdditivePooling_compute_output_shape \<lparr>num_classes = 5, num_inputs = Some 10\<rparr>
        [Some 2, Some 4, Some 10] = Inr [Some 2, Some 5]
   \<and> [Some 2, Some 5] \<noteq> butlast [Some 2, Some 4, Some (10::int)] @ [Some 5]
   \<and> AdditivePooling_compute_output_shape \<lparr>num_classes = 5, num_inputs = Some 10\<rparr>
        [Some 2, Some 4, Some 3, Some 10] = Inr [Some 2, Some 3, Some 5]
   \<and> AdditivePooling_compute_output_shape \<lparr>num_classes = 5, num_inputs = Some 10\<rparr>
        [Some 2, Some 3, Some 5] = Inr [Some 2, Some 5]
   \<and> Tea_compute_output_shape \<lparr>units = 0, uses_learning_phase = True\<rparr> [Some 2, Some 3]
        = Inr [Some 2, Some 0]
   \<and> Tea_compute_output_shape \<lparr>units = 0, uses_learning_phase = True\<rparr> [Some 2, Some 0]
        = Inl AssertionError"
  by (simp add: AdditivePooling_compute_output_shape_def Tea_compute_output_shape_def truthy_def)

section \<open>The potential and the spike\<close>

lemma f32_of_real_small:
  "f32_of_real 0 = Finite 0" "f32_of_real 1 = Finite 1" "f32_of_real (- 1) = Finite (- 1)"
  by (simp_all add: f32_of_real_Ints)

lemma weighted_connections_closed:
  assumes "shape (connections self) = shape (static_weights self)"
  shows "weighted_connections self
           = Inr \<lparr>shape = shape (connections self),
                  data = map (\<lambda>(u, v). fmul u v)
                             (zip (data (effective_connections self))
                                  (data (static_weights self)))\<rparr>"
  using assms
  by (simp add: weighted_connections_def tensor_mul_def effective_connections_shape)

lemma potential_closed:
  assumes "weighted_connections self = Inr w" and "shape w = [n, m]"
    and "shape (biases self) = [m]"
    and "length (shape x) \<ge> 2" and "last (shape x) = n"
  shows "potential self x
           = Inr \<lparr>shape = butlast (shape x) @ [m],
                  data = map (\<lambda>p. fadd (f32_sum (map (\<lambda>i. fmul (map tf_round (data x) ! ((p div m) * n + i))
                                                                 (data w ! (i * m + p mod m)))
                                                      [0..<n]))
                                        (map tf_round (data (biases self)) ! (p mod m)))
                             [0..<prod_list (butlast (shape x)) * m]\<rparr>"
proof -
  have ne: "shape x \<noteq> []" using assms(4) by auto
  have "butlast (shape x) @ [m] \<noteq> []" by simp
  moreover have "last (butlast (shape x) @ [m]) = m" by simp
  ultimately show ?thesis
    using assms
    by (simp add: potential_def K_dot_def K_bias_add_def map_tensor_def Let_def
             cong: map_cong)
qed

lemma potential_index:
  fixes p m n rows :: nat
  assumes "p < rows * m" and "i < n"
  shows "(p div m) * n + i < rows * n" and "p mod m < m" and "0 < m"
proof -
  from assms(1) show m: "0 < m" by (cases m) simp_all
  then show "p mod m < m" by simp
  have "p div m < rows"
    using assms(1) m by (simp add: less_mult_imp_div_less)
  then show "(p div m) * n + i < rows * n"
    using assms(2) by (rule flat_index_less)
qed

lemma prod_list_shape:
  assumes "s \<noteq> []"
  shows "prod_list s = prod_list (butlast s) * last s"
  using assms by (induction s rule: rev_induct) simp_all

lemma Tea_call_Test:
  assumes "potential self x = Inr p"
  shows "snd (Tea_call self Test x) = Inr \<lparr>shape = shape p, data = map spike (data p)\<rparr>"
  using assms by (simp add: Tea_call_def map_tensor_def)


lemma tea_weights_data:
  "length (data (tea_weight_initializer (n, m))) = n * m"
  "set (data (tea_weight_initializer (n, m))) \<subseteq> {1, - 1}"
  "shape (tea_weight_initializer (n, m)) = [n, m]"
  by (auto simp: tea_weight_initializer_def weight_rows_closed length_concat_rows)

lemma effective_connections_set:
  assumes "\<forall>v \<in> set (data (connections self)). v \<noteq> NaN"
  shows "set (data (effective_connections self)) \<subseteq> {0, 1}"
  using assms clip_round_binary by (auto simp: effective_connections_data)

lemma zip_product_set:
  assumes "set xs \<subseteq> {0, 1 :: f32}" and "set ys \<subseteq> {1, - 1}"
  shows "set (map (\<lambda>(u, v). fmul u v) (zip xs ys)) \<subseteq> {- 1, 0, 1}"
proof
  fix z assume "z \<in> set (map (\<lambda>(u, v). fmul u v) (zip xs ys))"
  then obtain u v where uv: "(u, v) \<in> set (zip xs ys)" and z: "z = fmul u v" by auto
  from uv have "u \<in> set xs" and "v \<in> set ys"
    by (auto dest: set_zip_leftD set_zip_rightD)
  with assms have "u \<in> {0, 1}" and "v \<in> {1, - 1}" by auto
  then show "z \<in> {- 1, 0, 1}"
    unfolding z by (auto simp: f32_consts f32_of_real_small)
qed

lemma weights_ternary:
  assumes sw: "static_weights self = tea_weight_initializer (n, m)"
    and c: "shape (connections self) = [n, m]" "length (data (connections self)) = n * m"
    and nan: "\<forall>v \<in> set (data (connections self)). v \<noteq> NaN"
  obtains w where "weighted_connections self = Inr w" and "shape w = [n, m]"
    and "length (data w) = n * m" and "set (data w) \<subseteq> {- 1, 0, 1}"
proof -
  let ?w = "\<lparr>shape = shape (connections self),
              data = map (\<lambda>(u, v). fmul u v)
                         (zip (data (effective_connections self)) (data (static_weights self)))\<rparr>"
  have eq: "shape (connections self) = shape (static_weights self)"
    by (simp add: sw c tea_weights_data)
  have w: "weighted_connections self = Inr ?w"
    by (rule weighted_connections_closed[OF eq])
  have wshape: "shape ?w = [n, m]" by (simp add: c)
  have wlen: "length (data ?w) = n * m"
    by (simp add: effective_connections_data c sw tea_weights_data)
  have wset: "set (data ?w) \<subseteq> {- 1, 0, 1}"
    using zip_product_set[OF effective_connections_set[OF nan] tea_weights_data(2)[of n m]]
    by (simp add: sw)
  from w wshape wlen wset show ?thesis by (rule that)
qed

lemma f32_sum_zeros:
  assumes "\<And>x. x \<in> set xs \<Longrightarrow> f x = 0"
  shows "f32_sum (map f xs) = 0"
proof -
  have "foldl fadd 0 (map f xs) = 0"
    using assms
  proof (induction xs)
    case Nil
    then show ?case by simp
  next
    case (Cons a xs)
    have "fadd 0 (f a) = 0"
      using Cons.prems[of a] by (simp add: f32_consts f32_of_real_small)
    with Cons show ?case by simp
  qed
  then show ?thesis by (simp add: f32_sum_def)
qed

lemma tf_round_zero: "tf_round 0 = 0"
  by (simp add: tf_round_def f32_consts round_even_def)

lemma fmul_zero_ternary:
  assumes "w \<in> {- 1, 0, 1}"
  shows "fmul 0 w = 0"
  using assms by (auto simp: f32_consts f32_of_real_small)

lemma zero_potential:
  assumes w: "weighted_connections self = Inr w" "shape w = [n, m]" "length (data w) = n * m"
      "set (data w) \<subseteq> {- 1, 0, 1}"
    and b: "shape (biases self) = [m]" "length (data (biases self)) = m"
    and x: "length (shape x) \<ge> 2" "last (shape x) = n" "wf_tensor x"
    and zero: "\<forall>v \<in> set (data x). v = 0"
    and leak: "\<forall>v \<in> set (data (biases self)). tf_round v = 0"
  shows "potential self x
           = Inr \<lparr>shape = butlast (shape x) @ [m],
                  data = replicate (prod_list (butlast (shape x)) * m) 0\<rparr>"
proof -
  let ?rows = "prod_list (butlast (shape x))"
  let ?summand = "\<lambda>p i. fmul (map tf_round (data x) ! ((p div m) * n + i)) (data w ! (i * m + p mod m))"
  let ?pot = "\<lambda>p. fadd (f32_sum (map (?summand p) [0..<n])) (map tf_round (data (biases self)) ! (p mod m))"
  have ne: "shape x \<noteq> []" using x(1) by auto
  have len: "length (data x) = ?rows * n"
    using x(2,3) prod_list_shape[OF ne] by (simp add: wf_tensor_def)
  have entry: "?pot p = 0" if p: "p < ?rows * m" for p
  proof -
    have pm: "p mod m < m" using p potential_index(2)[of p ?rows m 0 1] by simp
    have "?summand p i = 0" if i: "i \<in> set [0..<n]" for i
    proof -
      from i have i': "i < n" by simp
      have idx: "(p div m) * n + i < length (data x)"
        unfolding len using p i' by (rule potential_index)
      then have "data x ! ((p div m) * n + i) \<in> set (data x)" by simp
      with zero have "data x ! ((p div m) * n + i) = 0" by blast
      with idx have xi: "map tf_round (data x) ! ((p div m) * n + i) = 0"
        by (simp add: tf_round_zero)
      have "i * m + p mod m < length (data w)"
        unfolding w(3) using i' pm by (rule flat_index_less)
      then have "data w ! (i * m + p mod m) \<in> set (data w)" by (rule nth_mem)
      with w(4) have "data w ! (i * m + p mod m) \<in> {- 1, 0, 1}" by blast
      then show ?thesis unfolding xi by (rule fmul_zero_ternary)
    qed
    then have s: "f32_sum (map (?summand p) [0..<n]) = 0"
      by (rule f32_sum_zeros)
    have "p mod m < length (data (biases self))" using pm b(2) by simp
    then have "map tf_round (data (biases self)) ! (p mod m) = 0"
      using leak by simp
    with s show ?thesis by (simp add: f32_consts f32_of_real_small)
  qed
  have "map ?pot [0..<?rows * m] = map (\<lambda>p. 0) [0..<?rows * m]"
    by (intro map_cong) (simp_all add: entry)
  then show ?thesis
    unfolding potential_closed[OF w(1,2) b(1) x(1,2)] by (simp add: map_replicate_const)
qed

lemmas eval_simps =
  tf_round_def round_even_def Let_def K_clip_def fmin_def fmax_def fless_def f32_consts
  f32_sum_def f32_of_real_Ints

lemma demo_weights:
  "tea_weight_initializer (3, 2) = \<lparr>shape = [3, 2], data = [1, 1, - 1, - 1, 1, 1]\<rparr>"
proof -
  have "[0..<3] = [0, 1, 2]" by (simp add: upt_rec)
  then show ?thesis
    by (simp add: tea_weight_initializer_def weight_rows_closed numeral_2_eq_2)
qed

lemma demo_weighted:
  "weighted_connections demo_layer
     = Inr \<lparr>shape = [3, 2],
            data = [Finite 1, Finite 0, Finite 0, Finite 0, Finite 1, Finite 1]\<rparr>"
  by (simp add: weighted_connections_def effective_connections_def tensor_mul_def map_tensor_def
        demo_layer_def demo_weights eval_simps)

lemma upt_small: "[0..<3] = [0, 1, 2]" "[0..<2] = [0, 1]" "[0..<4] = [0, 1, 2, 3]"
  by (simp_all add: upt_rec)

lemma demo_potential:
  "potential demo_layer demo_input = Inr \<lparr>shape = [1, 2], data = [Finite 0, Finite 1]\<rparr>"
proof -
  have b: "shape (biases demo_layer) = [2]" by (simp add: demo_layer_def)
  have x: "length (shape demo_input) \<ge> 2" "last (shape demo_input) = 3"
    by (simp_all add: demo_input_def)
  show ?thesis
    unfolding potential_closed[OF demo_weighted _ b x, simplified]
    by (simp add: demo_input_def demo_layer_def upt_small eval_simps)
qed

text \<open>
  C3, as the code has it. In inference mode the output is the spike of the potential,
  and an entry whose potential is exactly \<open>0\<close> spikes. For an input of zeros and biases
  that round to \<open>0\<close>, with the structural weights of \<open>tea_weight_initializer\<close> and
  whatever connections without a \<open>NaN\<close> entry, every output entry is \<open>1\<close>.
\<close>

theorem inclusive_threshold:
  "(potential self x = Inr p \<longrightarrow>
      snd (Tea_call self Test x) = Inr (map_tensor spike p)
      \<and> (\<forall>k < length (data p). data p ! k = 0 \<longrightarrow> data (map_tensor spike p) ! k = 1))
   \<and> (static_weights self = tea_weight_initializer (n, m)
       \<and> shape (connections self) = [n, m] \<and> length (data (connections self)) = n * m
       \<and> (\<forall>v \<in> set (data (connections self)). v \<noteq> NaN)
       \<and> shape (biases self) = [m] \<and> length (data (biases self)) = m
       \<and> length (shape x) \<ge> 2 \<and> last (shape x) = n \<and> wf_tensor x
       \<and> (\<forall>v \<in> set (data x). v = 0)
       \<and> (\<forall>v \<in> set (data (biases self)). tf_round v = 0) \<longrightarrow>
      snd (Tea_call self Test x)
        = Inr \<lparr>shape = butlast (shape x) @ [m],
               data = replicate (prod_list (butlast (shape x)) * m) 1\<rparr>)"
proof (intro conjI impI)
  assume p: "potential self x = Inr p"
  then show "snd (Tea_call self Test x) = Inr (map_tensor spike p)"
    by (simp add: Tea_call_def)
  show "\<forall>k < length (data p). data p ! k = 0 \<longrightarrow> data (map_tensor spike p) ! k = 1"
    by (simp add: map_tensor_def spike_def f32_consts)
next
  assume h: "static_weights self = tea_weight_initializer (n, m)
       \<and> shape (connections self) = [n, m] \<and> length (data (connections self)) = n * m
       \<and> (\<forall>v \<in> set (data (connections self)). v \<noteq> NaN)
       \<and> shape (biases self) = [m] \<and> length (data (biases self)) = m
       \<and> length (shape x) \<ge> 2 \<and> last (shape x) = n \<and> wf_tensor x
       \<and> (\<forall>v \<in> set (data x). v = 0)
       \<and> (\<forall>v \<in> set (data (biases self)). tf_round v = 0)"
  then obtain w where w: "weighted_connections self = Inr w" "shape w = [n, m]"
      "length (data w) = n * m" "set (data w) \<subseteq> {- 1, 0, 1}"
    using weights_ternary[of self n m] by blast
  have "potential self x
          = Inr \<lparr>shape = butlast (shape x) @ [m],
                 data = replicate (prod_list (butlast (shape x)) * m) 0\<rparr>"
    using h by (intro zero_potential[OF w]) simp_all
  then show "snd (Tea_call self Test x)
        = Inr \<lparr>shape = butlast (shape x) @ [m],
               data = replicate (prod_list (butlast (shape x)) * m) 1\<rparr>"
    by (simp add: Tea_call_Test spike_def f32_consts)
qed

theorem inclusive_threshold_witness:
  "potential demo_layer demo_input = Inr \<lparr>shape = [1, 2], data = [Finite 0, Finite 1]\<rparr>
   \<and> snd (Tea_call demo_layer Test demo_input) = Inr \<lparr>shape = [1, 2], data = [1, 1]\<rparr>
   \<and> data zero_input = [0, 0, 0]
   \<and> map tf_round (data (biases demo_layer_no_leak)) = [0, 0]
   \<and> snd (Tea_call demo_layer_no_leak Test zero_input) = Inr \<lparr>shape = [1, 2], data = [1, 1]\<rparr>"
proof -
  have z0: "data zero_input = [0, 0, 0]"
    by (simp add: zero_input_def)
  have l0: "map tf_round (data (biases demo_layer_no_leak)) = [0, 0]"
    by (simp add: demo_layer_no_leak_def eval_simps)
  have a: "snd (Tea_call demo_layer Test demo_input) = Inr \<lparr>shape = [1, 2], data = [1, 1]\<rparr>"
    using inclusive_threshold[of demo_layer demo_input "\<lparr>shape = [1, 2], data = [Finite 0, Finite 1]\<rparr>" 3 2]
    by (simp add: demo_potential map_tensor_def spike_def f32_consts)
  have z: "\<forall>v \<in> set (data zero_input). v = 0"
    by (simp add: zero_input_def)
  have l: "\<forall>v \<in> set (data (biases demo_layer_no_leak)). tf_round v = 0"
    by (simp add: demo_layer_no_leak_def eval_simps)
  have h: "static_weights demo_layer_no_leak = tea_weight_initializer (3, 2)
       \<and> shape (connections demo_layer_no_leak) = [3, 2]
       \<and> length (data (connections demo_layer_no_leak)) = 3 * 2
       \<and> (\<forall>v \<in> set (data (connections demo_layer_no_leak)). v \<noteq> NaN)
       \<and> shape (biases demo_layer_no_leak) = [2] \<and> length (data (biases demo_layer_no_leak)) = 2
       \<and> length (shape zero_input) \<ge> 2 \<and> last (shape zero_input) = 3 \<and> wf_tensor zero_input
       \<and> (\<forall>v \<in> set (data zero_input). v = 0)
       \<and> (\<forall>v \<in> set (data (biases demo_layer_no_leak)). tf_round v = 0)"
    using z l
    by (simp add: demo_layer_no_leak_def demo_layer_def zero_input_def wf_tensor_def)
  have "snd (Tea_call demo_layer_no_leak Test zero_input)
          = Inr \<lparr>shape = butlast (shape zero_input) @ [2],
                 data = replicate (prod_list (butlast (shape zero_input)) * 2) 1\<rparr>"
    using inclusive_threshold[of demo_layer_no_leak zero_input p 3 2 for p] h by blast
  then have b: "snd (Tea_call demo_layer_no_leak Test zero_input) = Inr \<lparr>shape = [1, 2], data = [1, 1]\<rparr>"
    by (simp add: zero_input_def numeral_2_eq_2)
  show ?thesis
    using a z0 l0 b demo_potential by simp
qed

text \<open>
  The claim as stated, for any connection parameters, is false when a connection is
  \<open>NaN\<close>: with the input of zeros and biases that round to \<open>0\<close>, the potential of the
  first neuron is \<open>NaN\<close>, the comparison with zero is false and the output is \<open>0\<close>.
\<close>

theorem inclusive_threshold_nan_counterexample:
  "data zero_input = [0, 0, 0]
   \<and> map tf_round (data (biases nan_layer)) = [0, 0]
   \<and> potential nan_layer zero_input = Inr \<lparr>shape = [1, 2], data = [NaN, Finite 0]\<rparr>
   \<and> snd (Tea_call nan_layer Test zero_input) = Inr \<lparr>shape = [1, 2], data = [Finite 0, Finite 1]\<rparr>
   \<and> Finite 0 \<noteq> (1 :: f32)"
proof -
  have w: "weighted_connections nan_layer
             = Inr \<lparr>shape = [3, 2],
                    data = [NaN, Finite 0, Finite 0, Finite 0, Finite 1, Finite 1]\<rparr>"
    by (simp add: weighted_connections_def effective_connections_def tensor_mul_def map_tensor_def
          nan_layer_def demo_layer_no_leak_def demo_layer_def demo_weights eval_simps)
  have b: "shape (biases nan_layer) = [2]"
    by (simp add: nan_layer_def demo_layer_no_leak_def)
  have x: "length (shape zero_input) \<ge> 2" "last (shape zero_input) = 3"
    by (simp_all add: zero_input_def)
  have p: "potential nan_layer zero_input = Inr \<lparr>shape = [1, 2], data = [NaN, Finite 0]\<rparr>"
    unfolding potential_closed[OF w _ b x, simplified]
    by (simp add: zero_input_def nan_layer_def demo_layer_no_leak_def upt_small eval_simps)
  have l0: "map tf_round (data (biases nan_layer)) = [0, 0]"
    by (simp add: nan_layer_def demo_layer_no_leak_def eval_simps)
  have t: "snd (Tea_call nan_layer Test zero_input)
             = Inr \<lparr>shape = [1, 2], data = [Finite 0, Finite 1]\<rparr>"
    by (simp add: Tea_call_Test[OF p] spike_def f32_consts)
  have z0: "data zero_input = [0, 0, 0]"
    by (simp add: zero_input_def)
  show ?thesis
    using p l0 t z0 by (simp add: f32_consts)
qed

section \<open>The range of the potential\<close>

lemma f32_sum_exact:
  "\<bar>acc\<bar> + sum_list (map abs ts) \<le> 2 ^ 24 \<Longrightarrow>
   foldl fadd (Finite (of_int acc)) (map (\<lambda>t. Finite (of_int t)) ts)
     = Finite (of_int (acc + sum_list ts))"
proof (induction ts arbitrary: acc)
  case Nil
  then show ?case by simp
next
  case (Cons t ts)
  have nn: "0 \<le> sum_list (map abs ts)"
    by (rule sum_list_nonneg) auto
  have "\<bar>acc + t\<bar> \<le> \<bar>acc\<bar> + \<bar>t\<bar>" by (rule abs_triangle_ineq)
  with Cons.prems nn have small: "\<bar>acc + t\<bar> \<le> 2 ^ 24"
    and rest: "\<bar>acc + t\<bar> + sum_list (map abs ts) \<le> 2 ^ 24"
    by simp_all
  have "fadd (Finite (of_int acc)) (Finite (of_int t)) = f32_of_real (of_int (acc + t))"
    by simp
  also have "\<dots> = Finite (of_int (acc + t))"
    using small by (rule f32_of_real_int)
  finally have step: "fadd (Finite (of_int acc)) (Finite (of_int t)) = Finite (of_int (acc + t))" .
  have "foldl fadd (Finite (of_int acc)) (map (\<lambda>t. Finite (of_int t)) (t # ts))
          = foldl fadd (Finite (of_int (acc + t))) (map (\<lambda>t. Finite (of_int t)) ts)"
    by (simp only: list.map foldl_Cons step)
  also have "\<dots> = Finite (of_int ((acc + t) + sum_list ts))"
    by (rule Cons.IH[OF rest])
  finally show ?case by (simp add: add.assoc)
qed

lemma unit_summands:
  assumes "\<forall>x \<in> set xs. \<exists>t :: int. f x = Finite (of_int t) \<and> \<bar>t\<bar> \<le> 1"
  shows "\<exists>ts. map f xs = map (\<lambda>t. Finite (of_int t)) ts \<and> length ts = length xs
              \<and> (\<forall>t \<in> set ts. \<bar>t\<bar> \<le> 1)"
  using assms
proof (induction xs)
  case Nil
  then show ?case by simp
next
  case (Cons a xs)
  then obtain ts where ts: "map f xs = map (\<lambda>t. Finite (of_int t)) ts" "length ts = length xs"
      "\<forall>t \<in> set ts. \<bar>t\<bar> \<le> 1"
    by auto
  from Cons.prems obtain t :: int where t: "f a = Finite (of_int t)" "\<bar>t\<bar> \<le> 1" by auto
  have "map f (a # xs) = map (\<lambda>t. Finite (of_int t)) (t # ts)
        \<and> length (t # ts) = length (a # xs) \<and> (\<forall>u \<in> set (t # ts). \<bar>u\<bar> \<le> 1)"
    using ts t by simp
  then show ?case by blast
qed

lemma unit_list_bounds:
  fixes ts :: "int list"
  assumes "\<forall>t \<in> set ts. \<bar>t\<bar> \<le> 1"
  shows "sum_list (map abs ts) \<le> int (length ts)" and "\<bar>sum_list ts\<bar> \<le> int (length ts)"
proof -
  show a: "sum_list (map abs ts) \<le> int (length ts)"
    using assms by (induction ts) auto
  have "\<bar>sum_list ts\<bar> \<le> sum_list (map abs ts)" by (rule sum_list_abs)
  with a show "\<bar>sum_list ts\<bar> \<le> int (length ts)" by linarith
qed

lemma f32_sum_units:
  assumes "\<forall>x \<in> set xs. \<exists>t :: int. f x = Finite (of_int t) \<and> \<bar>t\<bar> \<le> 1"
    and "int (length xs) \<le> 2 ^ 24"
  shows "\<exists>s :: int. f32_sum (map f xs) = Finite (of_int s) \<and> \<bar>s\<bar> \<le> int (length xs)"
proof -
  from unit_summands[OF assms(1)] obtain ts where
    ts: "map f xs = map (\<lambda>t. Finite (of_int t)) ts" "length ts = length xs"
        "\<forall>t \<in> set ts. \<bar>t\<bar> \<le> 1"
    by blast
  have b: "sum_list (map abs ts) \<le> int (length xs)" "\<bar>sum_list ts\<bar> \<le> int (length xs)"
    using unit_list_bounds[OF ts(3)] ts(2) by simp_all
  have "\<bar>0\<bar> + sum_list (map abs ts) \<le> 2 ^ 24" using b(1) assms(2) by simp
  from f32_sum_exact[OF this]
  have "f32_sum (map f xs) = Finite (of_int (sum_list ts))"
    by (simp add: f32_sum_def ts(1) zero_f32_def)
  with b(2) show ?thesis by blast
qed

lemma spike_times_weight:
  assumes "q \<in> {0, 1 :: f32}" and "w \<in> {- 1, 0, 1}"
  shows "\<exists>t :: int. fmul q w = Finite (of_int t) \<and> \<bar>t\<bar> \<le> 1"
proof -
  have "fmul q w \<in> {Finite (of_int (- 1)), Finite (of_int 0), Finite (of_int 1)}"
    using assms by (auto simp: f32_consts f32_of_real_small)
  then show ?thesis by fastforce
qed

lemma potential_range:
  assumes sw: "static_weights self = tea_weight_initializer (n, m)"
    and c: "shape (connections self) = [n, m]" "length (data (connections self)) = n * m"
    and nan: "\<forall>v \<in> set (data (connections self)). v \<noteq> NaN"
    and b: "shape (biases self) = [m]" "length (data (biases self)) = m"
    and x: "length (shape x) \<ge> 2" "last (shape x) = n" "wf_tensor x"
    and q: "\<forall>v \<in> set (data x). tf_round v \<in> {0, 1}"
    and leak: "\<forall>v \<in> set (data (biases self)).
                 \<exists>k :: int. tf_round v = Finite (of_int k) \<and> int n + \<bar>k\<bar> \<le> 2 ^ 24"
  shows "\<exists>p. potential self x = Inr p
              \<and> shape p = butlast (shape x) @ [m]
              \<and> length (data p) = prod_list (butlast (shape x)) * m
              \<and> (\<forall>j < length (data p).
                    \<exists>s k :: int. data p ! j = Finite (of_int s)
                      \<and> tf_round (data (biases self) ! (j mod m)) = Finite (of_int k)
                      \<and> - int n - \<bar>k\<bar> \<le> s \<and> s \<le> int n + \<bar>k\<bar>)"
proof -
  from weights_ternary[OF sw c nan] obtain w where
    w: "weighted_connections self = Inr w" "shape w = [n, m]" "length (data w) = n * m"
       "set (data w) \<subseteq> {- 1, 0, 1}"
    by blast
  let ?rows = "prod_list (butlast (shape x))"
  let ?summand = "\<lambda>p i. fmul (map tf_round (data x) ! ((p div m) * n + i)) (data w ! (i * m + p mod m))"
  let ?pot = "\<lambda>p. fadd (f32_sum (map (?summand p) [0..<n])) (map tf_round (data (biases self)) ! (p mod m))"
  have ne: "shape x \<noteq> []" using x(1) by auto
  have len: "length (data x) = ?rows * n"
    using x(2,3) prod_list_shape[OF ne] by (simp add: wf_tensor_def)
  have pot: "potential self x
               = Inr \<lparr>shape = butlast (shape x) @ [m], data = map ?pot [0..<?rows * m]\<rparr>"
    by (rule potential_closed[OF w(1,2) b(1) x(1,2)])
  have entry: "\<exists>s k :: int. ?pot p = Finite (of_int s)
                 \<and> tf_round (data (biases self) ! (p mod m)) = Finite (of_int k)
                 \<and> - int n - \<bar>k\<bar> \<le> s \<and> s \<le> int n + \<bar>k\<bar>"
    if p: "p < ?rows * m" for p
  proof -
    have pm: "p mod m < m" using p potential_index(2)[of p ?rows m 0 1] by simp
    then have bi: "p mod m < length (data (biases self))" using b(2) by simp
    then have "data (biases self) ! (p mod m) \<in> set (data (biases self))" by (rule nth_mem)
    with leak obtain k :: int where
      k: "tf_round (data (biases self) ! (p mod m)) = Finite (of_int k)" "int n + \<bar>k\<bar> \<le> 2 ^ 24"
      by blast
    have n24: "int (length [0..<n]) \<le> 2 ^ 24" using k(2) by simp
    have t: "\<forall>i \<in> set [0..<n]. \<exists>t :: int. ?summand p i = Finite (of_int t) \<and> \<bar>t\<bar> \<le> 1"
    proof
      fix i assume "i \<in> set [0..<n]"
      then have i': "i < n" by simp
      have idx: "(p div m) * n + i < length (data x)"
        unfolding len using p i' by (rule potential_index)
      then have "tf_round (data x ! ((p div m) * n + i)) \<in> {0, 1}"
        using q by simp
      with idx have xi: "map tf_round (data x) ! ((p div m) * n + i) \<in> {0, 1}" by simp
      have "i * m + p mod m < length (data w)"
        unfolding w(3) using i' pm by (rule flat_index_less)
      then have "data w ! (i * m + p mod m) \<in> set (data w)" by (rule nth_mem)
      with w(4) have wi: "data w ! (i * m + p mod m) \<in> {- 1, 0, 1}" by blast
      from xi wi show "\<exists>t :: int. ?summand p i = Finite (of_int t) \<and> \<bar>t\<bar> \<le> 1"
        by (rule spike_times_weight)
    qed
    from f32_sum_units[OF t n24] obtain s :: int where
      s: "f32_sum (map (?summand p) [0..<n]) = Finite (of_int s)" "\<bar>s\<bar> \<le> int n"
      by auto
    have "\<bar>s + k\<bar> \<le> \<bar>s\<bar> + \<bar>k\<bar>" by (rule abs_triangle_ineq)
    with s(2) k(2) have small: "\<bar>s + k\<bar> \<le> 2 ^ 24" by linarith
    have "?pot p = fadd (Finite (of_int s)) (Finite (of_int k))"
      using bi by (simp add: s(1) k(1))
    also have "\<dots> = f32_of_real (of_int (s + k))" by simp
    also have "\<dots> = Finite (of_int (s + k))" using small by (rule f32_of_real_int)
    finally have "?pot p = Finite (of_int (s + k))" .
    moreover have "- int n - \<bar>k\<bar> \<le> s + k" "s + k \<le> int n + \<bar>k\<bar>"
      using s(2) by linarith+
    ultimately show ?thesis using k(1) by blast
  qed
  show ?thesis
    unfolding pot using entry by simp
qed

text \<open>
  C10, as the code has it. For a layer whose static weights are those of
  \<open>tea_weight_initializer\<close> and whose connection parameter of that shape has no \<open>NaN\<close>
  entry, every entry of the weighted connections (effective connection times
  structural weight) is \<open>-1\<close>, \<open>0\<close> or \<open>1\<close>. Hence, for an input whose rounded entries
  are \<open>0\<close> or \<open>1\<close> and whose trailing dimension is \<open>n\<close>, and for biases whose rounded
  values \<open>b\<close> are integers with \<open>n + |b| \<le> 2^24\<close>, so that the \<open>float32\<close> additions are
  exact, every potential is an integer between \<open>-n - |b|\<close> and \<open>n + |b|\<close>.
\<close>

theorem potential_bounds:
  assumes "static_weights self = tea_weight_initializer (n, m)"
    and "shape (connections self) = [n, m]" and "length (data (connections self)) = n * m"
    and "\<forall>v \<in> set (data (connections self)). v \<noteq> NaN"
    and "shape (biases self) = [m]" and "length (data (biases self)) = m"
  shows "(\<exists>w. weighted_connections self = Inr w \<and> shape w = [n, m] \<and> length (data w) = n * m
              \<and> (\<forall>v \<in> set (data w). v \<in> {- 1, 0, 1}))
         \<and> (length (shape x) \<ge> 2 \<and> last (shape x) = n \<and> wf_tensor x
             \<and> (\<forall>v \<in> set (data x). tf_round v \<in> {0, 1})
             \<and> (\<forall>v \<in> set (data (biases self)).
                   \<exists>k :: int. tf_round v = Finite (of_int k) \<and> int n + \<bar>k\<bar> \<le> 2 ^ 24) \<longrightarrow>
             (\<exists>p. potential self x = Inr p
                   \<and> shape p = butlast (shape x) @ [m]
                   \<and> length (data p) = prod_list (butlast (shape x)) * m
                   \<and> (\<forall>j < length (data p).
                         \<exists>s k :: int. data p ! j = Finite (of_int s)
                           \<and> tf_round (data (biases self) ! (j mod m)) = Finite (of_int k)
                           \<and> - int n - \<bar>k\<bar> \<le> s \<and> s \<le> int n + \<bar>k\<bar>)))"
proof (intro conjI impI)
  show "\<exists>w. weighted_connections self = Inr w \<and> shape w = [n, m] \<and> length (data w) = n * m
              \<and> (\<forall>v \<in> set (data w). v \<in> {- 1, 0, 1})"
    using weights_ternary[OF assms(1-4)] by (metis subsetD)
next
  assume "length (shape x) \<ge> 2 \<and> last (shape x) = n \<and> wf_tensor x
             \<and> (\<forall>v \<in> set (data x). tf_round v \<in> {0, 1})
             \<and> (\<forall>v \<in> set (data (biases self)).
                   \<exists>k :: int. tf_round v = Finite (of_int k) \<and> int n + \<bar>k\<bar> \<le> 2 ^ 24)"
  then show "\<exists>p. potential self x = Inr p
                   \<and> shape p = butlast (shape x) @ [m]
                   \<and> length (data p) = prod_list (butlast (shape x)) * m
                   \<and> (\<forall>j < length (data p).
                         \<exists>s k :: int. data p ! j = Finite (of_int s)
                           \<and> tf_round (data (biases self) ! (j mod m)) = Finite (of_int k)
                           \<and> - int n - \<bar>k\<bar> \<le> s \<and> s \<le> int n + \<bar>k\<bar>)"
    by (intro potential_range[OF assms]) simp_all
qed

theorem potential_bounds_witness:
  "static_weights demo_layer = tea_weight_initializer (3, 2)
   \<and> shape (connections demo_layer) = [3, 2] \<and> length (data (connections demo_layer)) = 3 * 2
   \<and> NaN \<notin> set (data (connections demo_layer))
   \<and> shape (biases demo_layer) = [2] \<and> length (data (biases demo_layer)) = 2
   \<and> length (shape demo_input) \<ge> 2 \<and> last (shape demo_input) = 3 \<and> wf_tensor demo_input
   \<and> map tf_round (data demo_input) = [1, 0, 1]
   \<and> map tf_round (data (biases demo_layer)) = [Finite (- 2), 0]
   \<and> (\<exists>w. weighted_connections demo_layer = Inr w \<and> (\<forall>v \<in> set (data w). v \<in> {- 1, 0, 1}))
   \<and> (\<exists>p. potential demo_layer demo_input = Inr p
            \<and> length (data p) = 2
            \<and> (\<forall>j < length (data p).
                  \<exists>s k :: int. data p ! j = Finite (of_int s)
                    \<and> tf_round (data (biases demo_layer) ! (j mod 2)) = Finite (of_int k)
                    \<and> - 3 - \<bar>k\<bar> \<le> s \<and> s \<le> 3 + \<bar>k\<bar>))"
proof -
  have l: "static_weights demo_layer = tea_weight_initializer (3, 2)"
    "shape (connections demo_layer) = [3, 2]" "length (data (connections demo_layer)) = 3 * 2"
    "\<forall>v \<in> set (data (connections demo_layer)). v \<noteq> NaN"
    "shape (biases demo_layer) = [2]" "length (data (biases demo_layer)) = 2"
    by (simp_all add: demo_layer_def)
  have nn: "NaN \<notin> set (data (connections demo_layer))"
    by (simp add: demo_layer_def)
  have rx: "map tf_round (data demo_input) = [1, 0, 1]"
    by (simp add: demo_input_def eval_simps)
  have rb: "map tf_round (data (biases demo_layer)) = [Finite (- 2), 0]"
    by (simp add: demo_layer_def eval_simps)
  have b0: "\<exists>k :: int. tf_round (Finite (- 5 / 2)) = Finite (of_int k) \<and> int 3 + \<bar>k\<bar> \<le> 2 ^ 24"
    by (intro exI[of _ "- 2"]) (simp add: eval_simps)
  have b1: "\<exists>k :: int. tf_round (Finite (1 / 4)) = Finite (of_int k) \<and> int 3 + \<bar>k\<bar> \<le> 2 ^ 24"
    by (intro exI[of _ 0]) (simp add: eval_simps)
  have x: "length (shape demo_input) \<ge> 2 \<and> last (shape demo_input) = 3 \<and> wf_tensor demo_input
           \<and> (\<forall>v \<in> set (data demo_input). tf_round v \<in> {0, 1})
           \<and> (\<forall>v \<in> set (data (biases demo_layer)).
                 \<exists>k :: int. tf_round v = Finite (of_int k) \<and> int 3 + \<bar>k\<bar> \<le> 2 ^ 24)"
    using b0 b1 by (simp add: demo_input_def demo_layer_def wf_tensor_def eval_simps)
  have r: "prod_list (butlast (shape demo_input)) * 2 = 2"
    by (simp add: demo_input_def)
  from potential_bounds[OF l, of demo_input] x
  have "(\<exists>w. weighted_connections demo_layer = Inr w \<and> (\<forall>v \<in> set (data w). v \<in> {- 1, 0, 1}))"
    and "(\<exists>p. potential demo_layer demo_input = Inr p
            \<and> length (data p) = prod_list (butlast (shape demo_input)) * 2
            \<and> (\<forall>j < length (data p).
                  \<exists>s k :: int. data p ! j = Finite (of_int s)
                    \<and> tf_round (data (biases demo_layer) ! (j mod 2)) = Finite (of_int k)
                    \<and> - int 3 - \<bar>k\<bar> \<le> s \<and> s \<le> int 3 + \<bar>k\<bar>))"
    by blast+
  then show ?thesis
    using l(1,2,3,5,6) nn x rx rb unfolding r by simp
qed

lemma f32_of_real_tie: "f32_of_real 33554438 = Finite 33554440"
  using round_to_eval[of 25 33554438 "- 126" 24]
  by (simp add: f32_of_real_def round_even_def)

text \<open>
  The claim as stated, for any leak, is false for three axons, the spikes \<open>1, 0, 1\<close>
  and the leak \<open>33554436\<close>: the potential \<open>2 + 33554436\<close> is a tie between two
  \<open>float32\<close> values and rounds to \<open>33554440\<close>, above \<open>n + |leak| = 33554439\<close>.
\<close>

theorem potential_bounds_counterexample:
  "map tf_round (data demo_input) = [1, 0, 1]
   \<and> map tf_round (data (biases big_leak_layer)) = [Finite 33554436, 0]
   \<and> potential big_leak_layer demo_input
       = Inr \<lparr>shape = [1, 2], data = [Finite 33554440, Finite 1]\<rparr>
   \<and> \<not> ((33554440 :: real) \<le> 3 + \<bar>33554436\<bar>)"
proof -
  have w: "weighted_connections big_leak_layer
             = Inr \<lparr>shape = [3, 2],
                    data = [Finite 1, Finite 0, Finite 0, Finite 0, Finite 1, Finite 1]\<rparr>"
    using demo_weighted by (simp add: weighted_connections_def effective_connections_def big_leak_layer_def)
  have b: "shape (biases big_leak_layer) = [2]" by (simp add: big_leak_layer_def)
  have x: "length (shape demo_input) \<ge> 2" "last (shape demo_input) = 3"
    by (simp_all add: demo_input_def)
  have p: "potential big_leak_layer demo_input
             = Inr \<lparr>shape = [1, 2], data = [Finite 33554440, Finite 1]\<rparr>"
    unfolding potential_closed[OF w _ b x, simplified]
    by (simp add: demo_input_def big_leak_layer_def upt_small eval_simps f32_of_real_tie)
  have rx: "map tf_round (data demo_input) = [1, 0, 1]"
    by (simp add: demo_input_def eval_simps)
  have rb: "map tf_round (data (biases big_leak_layer)) = [Finite 33554436, 0]"
    by (simp add: big_leak_layer_def eval_simps)
  show ?thesis using p rx rb by simp
qed

section \<open>The activation\<close>












section \<open>Pooling over ticks and classes\<close>



















section \<open>Layers as \<open>build\<close> creates them\<close>

text \<open>
  A layer that \<open>build\<close> returns has the layout the theorems on the potential assume:
  static weights from \<open>tea_weight_initializer\<close>, connections of the same shape, one
  bias per unit, all biases zero.
\<close>

lemma Tea_build_layout:
  assumes "Tea_build self input_shape sample = Inr layer"
  shows "\<exists>n m. static_weights layer = tea_weight_initializer (n, m)
               \<and> shape (connections layer) = [n, m]
               \<and> length (data (connections layer)) = n * m
               \<and> shape (biases layer) = [m] \<and> length (data (biases layer)) = m
               \<and> (\<forall>v \<in> set (data (biases layer)). v = 0)
               \<and> last input_shape = Some (int n) \<and> units self = int m"
  using assms
  by (auto simp: Tea_build_def Let_def split: if_splits option.splits)

end
